theory Spec2Isabelle
  imports Main
begin

section \<open>Strings and maps of the host language\<close>

text \<open>
  Type ids are strings whose segments are separated by a colon. The two string operations
  that \<open>getTypeHint\<close> uses are \<open>String.prototype.split\<close> and \<open>Array.prototype.join\<close>,
  both with the separator \<open>':'\<close>. Splitting the empty string yields one empty segment;
  joining no segment yields the empty string.
\<close>

fun split_colon :: "string \<Rightarrow> string list" where
  "split_colon [] = [[]]"
| "split_colon (c # cs) =
     (if c = CHR '':'' then [] # split_colon cs
      else (case split_colon cs of [] \<Rightarrow> [[c]] | s # ss \<Rightarrow> (c # s) # ss))"

fun join_colon :: "string list \<Rightarrow> string" where
  "join_colon [] = []"
| "join_colon [s] = s"
| "join_colon (s # t # ss) = s @ CHR '':'' # join_colon (t # ss)"

text \<open>
  A \<open>Map\<close> keeps its entries in insertion order, one entry per key: \<open>set\<close> on a
  key that is present replaces the value in place, on a new key it appends an entry.
\<close>

type_synonym ('k, 'v) js_map = "('k \<times> 'v) list"

definition map_get :: "('k, 'v) js_map \<Rightarrow> 'k \<Rightarrow> 'v option" where
  "map_get m k = map_of m k"

fun map_set :: "('k, 'v) js_map \<Rightarrow> 'k \<Rightarrow> 'v \<Rightarrow> ('k, 'v) js_map" where
  "map_set [] k v = [(k, v)]"
| "map_set (p # ps) k v = (if fst p = k then (k, v) # ps else p # map_set ps k v)"

definition map_values :: "('k, 'v) js_map \<Rightarrow> 'v list" where
  "map_values m = map snd m"

section \<open>Type hints, features and model elements\<close>

record TypeHint =
  elementTypeId :: string
  repositionable :: bool
  deletable :: bool

record ShapeTypeHint = TypeHint +
  resizable :: bool
  reparentable :: bool
  containableElementTypeIds :: "string list option"

record EdgeTypeHint = TypeHint +
  routable :: bool
  sourceElementTypeIds :: "string list"
  targetElementTypeIds :: "string list"

text \<open>
  Feature tokens are symbols. The eight that the command touches are named; any other
  symbol an element may carry is \<open>otherFeature\<close>.
\<close>

datatype feature =
    deletableFeature | moveFeature | resizeFeature | reparentFeature
  | containerFeature | connectableFeature | editFeature | reconnectFeature
  | otherFeature string

text \<open>
  The \<open>features\<close> field of an element is optional, and a \<open>FeatureSet\<close> only promises
  \<open>has\<close>: it is a \<open>Set\<close> (which can be modified) or some other object answering
  \<open>has\<close> (which cannot).
\<close>

datatype FeatureSet =
    FeaturesUndefined
  | FeaturesReadonly "feature set"
  | FeaturesSet "feature set"

datatype ElementKind = ShapeElement | RootElement | EdgeElement | OtherElement

datatype role = source | target

text \<open>
  A model element. \<open>kind\<close> records which of the \<open>instanceof\<close> tests of \<open>execute\<close> the
  element passes. The two predicates are own properties that \<open>Object.assign\<close> installs;
  they see of their candidate only its type id. Every element owns its feature set.
\<close>

record SModelElement =
  elementId :: string
  type :: string
  kind :: ElementKind
  features :: FeatureSet
  isContainableElement :: "(string \<Rightarrow> bool) option"
  canConnect :: "(string \<Rightarrow> role \<Rightarrow> bool) option"

datatype hint_input = Element SModelElement | TypeId string

text \<open>
  Modelled from the spec: \<open>getElementTypeId\<close> of utils/smodel-util is not among the
  sources. It yields the hierarchical type id of its input: the input itself when it is
  a string, the \<open>type\<close> of the element otherwise.
\<close>

fun getElementTypeId :: "hint_input \<Rightarrow> string" where
  "getElementTypeId (TypeId s) = s"
| "getElementTypeId (Element e) = type e"

section \<open>Hint lookup\<close>

text \<open>
  The loop of \<open>getTypeHint\<close>: while no hint is found and segments remain, drop the last
  segment and look the joined rest up.
\<close>

function strip_loop :: "(string, 'h) js_map \<Rightarrow> 'h option \<Rightarrow> string list \<Rightarrow> 'h option" where
  "strip_loop hints hint subtypes =
     (if hint = None \<and> length subtypes > 0
      then strip_loop hints (map_get hints (join_colon (butlast subtypes))) (butlast subtypes)
      else hint)"
  by pat_completeness auto
termination
  by (relation "measure (\<lambda>(hints, hint, subtypes). length subtypes)") auto

declare strip_loop.simps [simp del]

definition getTypeHint :: "hint_input \<Rightarrow> (string, 'h) js_map \<Rightarrow> 'h option" where
  "getTypeHint input hints =
     (let type = getElementTypeId input;
          hint = map_get hints type
      in if hint = None then strip_loop hints hint (split_colon type) else hint)"

text \<open>
  The type id \<open>t\<close> cut down to its first \<open>k\<close> colon segments. This is the spec's notion of
  a prefix of a hierarchical type id, used to state what the lookup finds.
\<close>

definition type_prefix :: "string \<Rightarrow> nat \<Rightarrow> string" where
  "type_prefix t k = join_colon (take k (split_colon t))"

section \<open>The type hint provider\<close>

record TypeHintProvider =
  shapeHints :: "(string, ShapeTypeHint) js_map"
  edgeHints :: "(string, EdgeTypeHint) js_map"

text \<open>
  \<open>handle\<close> on a \<open>SetTypeHintsAction\<close>: every hint is stored under its own
  \<open>elementTypeId\<close>, shape hints and edge hints each in their map.
\<close>

definition handle :: "ShapeTypeHint list \<Rightarrow> EdgeTypeHint list \<Rightarrow> TypeHintProvider \<Rightarrow> TypeHintProvider" where
  "handle actionShapeHints actionEdgeHints provider =
     provider
       \<lparr> shapeHints := foldl (\<lambda>m hint. map_set m (elementTypeId hint) hint) (shapeHints provider) actionShapeHints,
         edgeHints := foldl (\<lambda>m hint. map_set m (elementTypeId hint) hint) (edgeHints provider) actionEdgeHints \<rparr>"

text \<open>
  Modelled from the spec: \<open>hasCompatibleType\<close> of utils/smodel-util is not among the
  sources. The spec defines compatibility as an exact or ancestor match under the same
  hierarchical rule as the hint lookup: the given type is the input's type id, or the
  input's type id with trailing colon segments stripped, down to the empty string.
\<close>

definition ancestors :: "string \<Rightarrow> string list" where
  "ancestors t = map (type_prefix t) (rev [0 ..< length (split_colon t)])"

definition hasCompatibleType :: "hint_input \<Rightarrow> string \<Rightarrow> bool" where
  "hasCompatibleType input type' =
     (let inputType = getElementTypeId input
      in inputType = type' \<or> List.member (ancestors inputType) type')"

definition getValidEdgeElementTypes :: "TypeHintProvider \<Rightarrow> hint_input \<Rightarrow> role \<Rightarrow> string list" where
  "getValidEdgeElementTypes provider input role' =
     (let elementTypeId' = getElementTypeId input
      in if role' = source
         then map elementTypeId
                (filter (\<lambda>hint. list_ex (\<lambda>sourceElementTypeId.
                            hasCompatibleType (TypeId elementTypeId') sourceElementTypeId)
                          (sourceElementTypeIds hint))
                   (map_values (edgeHints provider)))
         else map elementTypeId
                (filter (\<lambda>hint. list_ex (\<lambda>targetElementTypeId.
                            hasCompatibleType (TypeId elementTypeId') targetElementTypeId)
                          (targetElementTypeIds hint))
                   (map_values (edgeHints provider))))"

definition getShapeTypeHint :: "TypeHintProvider \<Rightarrow> hint_input \<Rightarrow> ShapeTypeHint option" where
  "getShapeTypeHint provider input = getTypeHint input (shapeHints provider)"

definition getEdgeTypeHint :: "TypeHintProvider \<Rightarrow> hint_input \<Rightarrow> EdgeTypeHint option" where
  "getEdgeTypeHint provider input = getTypeHint input (edgeHints provider)"

section \<open>The command that applies the type hints\<close>

definition addOrRemove :: "feature set \<Rightarrow> feature \<Rightarrow> bool \<Rightarrow> feature set" where
  "addOrRemove fs f add =
     (if add \<and> f \<notin> fs then insert f fs
      else if \<not> add \<and> f \<in> fs then fs - {f}
      else fs)"

fun isModifiableFeatureSet :: "FeatureSet \<Rightarrow> bool" where
  "isModifiableFeatureSet (FeaturesSet fs) = True"
| "isModifiableFeatureSet (FeaturesReadonly fs) = False"
| "isModifiableFeatureSet FeaturesUndefined = False"

text \<open>The two closures; a candidate element is given by its type id.\<close>

definition createConnectable :: "string list \<Rightarrow> string list \<Rightarrow> string \<Rightarrow> role \<Rightarrow> bool" where
  "createConnectable validSourceEdges validTargetEdges routableType role' =
     (if role' = source then List.member validSourceEdges routableType
      else List.member validTargetEdges routableType)"

definition createContainable :: "ShapeTypeHint \<Rightarrow> string \<Rightarrow> bool" where
  "createContainable hint elementType =
     (case containableElementTypeIds hint of
        Some ids \<Rightarrow> List.member ids elementType
      | None \<Rightarrow> False)"

definition applyEdgeTypeHint :: "TypeHintProvider \<Rightarrow> SModelElement \<Rightarrow> SModelElement" where
  "applyEdgeTypeHint provider element =
     (case getEdgeTypeHint provider (Element element) of
        None \<Rightarrow> element
      | Some hint \<Rightarrow>
          (case features element of
             FeaturesSet fs \<Rightarrow>
               (let fs1 = addOrRemove fs deletableFeature (deletable hint);
                    fs2 = addOrRemove fs1 editFeature (routable hint);
                    fs3 = addOrRemove fs2 reconnectFeature (repositionable hint)
                in element\<lparr>features := FeaturesSet fs3\<rparr>)
           | FeaturesReadonly fs \<Rightarrow> element
           | FeaturesUndefined \<Rightarrow> element))"

definition applyShapeTypeHint :: "TypeHintProvider \<Rightarrow> SModelElement \<Rightarrow> SModelElement" where
  "applyShapeTypeHint provider element =
     (case getShapeTypeHint provider (Element element) of
        None \<Rightarrow> element
      | Some hint \<Rightarrow>
          (case features element of
             FeaturesSet fs \<Rightarrow>
               (let fs1 = addOrRemove fs deletableFeature (deletable hint);
                    fs2 = addOrRemove fs1 moveFeature (repositionable hint);
                    fs3 = addOrRemove fs2 resizeFeature (resizable hint);
                    fs4 = addOrRemove fs3 reparentFeature (reparentable hint);
                    fs5 = addOrRemove fs4 containerFeature True;
                    element1 = element\<lparr>features := FeaturesSet fs5,
                                 isContainableElement := Some (createContainable hint)\<rparr>;
                    fs6 = addOrRemove fs5 connectableFeature True;
                    element2 = element1\<lparr>features := FeaturesSet fs6\<rparr>;
                    validSourceEdges = getValidEdgeElementTypes provider (Element element2) source;
                    validTargetEdges = getValidEdgeElementTypes provider (Element element2) target
                in element2\<lparr>canConnect := Some (createConnectable validSourceEdges validTargetEdges)\<rparr>)
           | FeaturesReadonly fs \<Rightarrow> element
           | FeaturesUndefined \<Rightarrow> element))"

text \<open>
  \<open>ApplyTypeHintsCommand.execute\<close> visits every element of the index of the root. The model root is given by
  the list of these elements, and the command returns it with each element as the visit
  leaves it.
\<close>

definition applyTypeHints :: "TypeHintProvider \<Rightarrow> SModelElement \<Rightarrow> SModelElement" where
  "applyTypeHints provider element =
     (if kind element = ShapeElement \<or> kind element = RootElement
      then applyShapeTypeHint provider element
      else if kind element = EdgeElement then applyEdgeTypeHint provider element
      else element)"

definition ApplyTypeHintsCommand_execute :: "TypeHintProvider \<Rightarrow> SModelElement list \<Rightarrow> SModelElement list" where
  "ApplyTypeHintsCommand_execute provider root = map (applyTypeHints provider) root"

section \<open>The command stack\<close>

datatype ICommand = SetModelCommand | UpdateModelCommand | OtherCommand string

datatype log_level = warn

text \<open>
  The part of the stack that the base class \<open>CommandStack\<close> of the diagram library owns:
  the current model and the logger, given by what has been logged.
\<close>

record 'r CommandStack =
  currentModel :: 'r
  logger :: "(log_level \<times> string) list"

text \<open>
  The stack of this repository adds the emitter of the model root changed event, given by
  the roots fired on it, which every listener registered in \<open>initialize\<close> receives.
\<close>

record 'r GLSPCommandStack =
  super :: "'r CommandStack"
  onModelRootChangedEmitter :: "'r list"

text \<open>A promise that has settled: fulfilled with a value, or rejected with a reason.\<close>

datatype 'r settled = Fulfilled 'r | Rejected string

definition GLSPCommandStack_undo :: "'r GLSPCommandStack \<Rightarrow> 'r GLSPCommandStack \<times> 'r" where
  "GLSPCommandStack_undo this =
     (this\<lparr>super := (super this)\<lparr>logger := logger (super this) @
        [(warn, ''GLSPCommandStack.undo() was called. This should never happen as the GLSP server is responsible for handling undo requests'')]\<rparr>\<rparr>,
      currentModel (super this))"

definition GLSPCommandStack_redo :: "'r GLSPCommandStack \<Rightarrow> 'r GLSPCommandStack \<times> 'r" where
  "GLSPCommandStack_redo this =
     (this\<lparr>super := (super this)\<lparr>logger := logger (super this) @
        [(warn, ''GLSPCommandStack.redo() was called. This should never happen as the GLSP server is responsible for handling redo requests'')]\<rparr>\<rparr>,
      currentModel (super this))"

definition notifyListeners :: "'r \<Rightarrow> 'r GLSPCommandStack \<Rightarrow> 'r GLSPCommandStack" where
  "notifyListeners root this =
     this\<lparr>onModelRootChangedEmitter := onModelRootChangedEmitter this @ [root]\<rparr>"

text \<open>
  \<open>execute\<close> runs the \<open>execute\<close> of the base class, which is library code and a
  parameter here: it works on the inherited part of the stack and returns the promise of
  the new root, taken at the time it settles. The callback given to \<open>then\<close> runs only on
  a fulfilled promise.
\<close>

definition GLSPCommandStack_execute ::
  "(ICommand \<Rightarrow> 'r CommandStack \<Rightarrow> 'r CommandStack \<times> 'r settled) \<Rightarrow>
   ICommand \<Rightarrow> 'r GLSPCommandStack \<Rightarrow> 'r GLSPCommandStack \<times> 'r settled" where
  "GLSPCommandStack_execute super_execute command this =
     (let (base, result) = super_execute command (super this);
          this1 = this\<lparr>super := base\<rparr>
      in if command = SetModelCommand \<or> command = UpdateModelCommand
         then (case result of
                 Fulfilled root \<Rightarrow> (notifyListeners root this1, result)
               | Rejected reason \<Rightarrow> (this1, result))
         else (this1, result))"

section \<open>Translating responses\<close>

text \<open>
  A response is any value of the host language. Reading a property of \<open>undefined\<close> or
  \<open>null\<close> throws; reading a property that an object does not have, or any of the
  properties read here of a value that is not an object, yields \<open>undefined\<close>.
\<close>

datatype jvalue =
    JUndefined | JNull | JBoolean bool | JNumber int | JString string
  | JArray "jvalue list" | JObject "(string \<times> jvalue) list"

datatype js_error = TypeError

fun get_property :: "jvalue \<Rightarrow> string \<Rightarrow> js_error + jvalue" where
  "get_property JUndefined name = Inl TypeError"
| "get_property JNull name = Inl TypeError"
| "get_property (JObject props) name =
     Inr (case map_of props name of Some v \<Rightarrow> v | None \<Rightarrow> JUndefined)"
| "get_property v name = Inr JUndefined"

text \<open>
  The type guards of the protocol package that the two translations call are not among
  the sources; they are parameters of the translations.
\<close>

record guards =
  SetEditValidationResultAction_is :: "jvalue \<Rightarrow> bool"
  SetContextActions_is :: "jvalue \<Rightarrow> bool"
  ValidationStatus_isError :: "jvalue \<Rightarrow> bool"
  ValidationStatus_isWarning :: "jvalue \<Rightarrow> bool"

datatype Severity = ok | warning | error

text \<open>A \<open>message\<close> of \<open>None\<close> is a result object without that property.\<close>

record EditLabelValidationResult =
  message :: "jvalue option"
  severity :: Severity

definition toEditLabelValidationResult :: "guards \<Rightarrow> jvalue \<Rightarrow> js_error + EditLabelValidationResult" where
  "toEditLabelValidationResult g status =
     (case get_property status ''message'' of
        Inl e \<Rightarrow> Inl e
      | Inr message' \<Rightarrow>
          Inr \<lparr> message = Some message',
                severity = (if ValidationStatus_isError g status then error
                            else if ValidationStatus_isWarning g status then warning
                            else ok) \<rparr>)"

definition getValidationResultFromResponse :: "guards \<Rightarrow> jvalue \<Rightarrow> js_error + EditLabelValidationResult" where
  "getValidationResultFromResponse g action =
     (if SetEditValidationResultAction_is g action
      then (case get_property action ''status'' of
              Inl e \<Rightarrow> Inl e
            | Inr status \<Rightarrow> toEditLabelValidationResult g status)
      else Inr \<lparr> message = None, severity = ok \<rparr>)"

definition getContextActionsFromResponse :: "guards \<Rightarrow> jvalue \<Rightarrow> js_error + jvalue" where
  "getContextActionsFromResponse g action =
     (if SetContextActions_is g action then get_property action ''actions''
      else Inr (JArray []))"

text \<open>
  Modelled from the spec: an instance of the guards. The spec asks of every guard that it
  checks the \<open>kind\<close> and the presence and type of the required fields: \<open>status\<close> for
  \<open>setEditValidationResult\<close>, the array \<open>actions\<close> for \<open>setContextActions\<close>. The severity
  of a status is read from its \<open>severity\<close> property.
\<close>

fun hasKind :: "jvalue \<Rightarrow> string \<Rightarrow> bool" where
  "hasKind (JObject props) k = (map_of props ''kind'' = Some (JString k))"
| "hasKind v k = False"

fun hasObjectProp :: "jvalue \<Rightarrow> string \<Rightarrow> bool" where
  "hasObjectProp (JObject props) name =
     (case map_of props name of Some (JObject ps) \<Rightarrow> True | _ \<Rightarrow> False)"
| "hasObjectProp v name = False"

fun hasArrayProp :: "jvalue \<Rightarrow> string \<Rightarrow> bool" where
  "hasArrayProp (JObject props) name =
     (case map_of props name of Some (JArray vs) \<Rightarrow> True | _ \<Rightarrow> False)"
| "hasArrayProp v name = False"

fun hasSeverity :: "jvalue \<Rightarrow> string \<Rightarrow> bool" where
  "hasSeverity (JObject props) s = (map_of props ''severity'' = Some (JString s))"
| "hasSeverity v s = False"

definition protocol_guards :: guards where
  "protocol_guards =
     \<lparr> SetEditValidationResultAction_is =
         (\<lambda>object. hasKind object ''setEditValidationResult'' \<and> hasObjectProp object ''status''),
       SetContextActions_is =
         (\<lambda>object. hasKind object ''setContextActions'' \<and> hasArrayProp object ''actions''),
       ValidationStatus_isError = (\<lambda>status. hasSeverity status ''error''),
       ValidationStatus_isWarning = (\<lambda>status. hasSeverity status ''warning'') \<rparr>"

section \<open>Correlated requests\<close>

text \<open>
  Modelled from the spec: the action dispatcher is not among the sources. The spec gives
  it a list of pending correlated requests, each with the predicate of its caller.
  \<open>dispatch\<close> delivers an action to the handlers; every pending request whose predicate
  holds of the action is removed and resolved with it. \<open>requestUntil\<close> dispatches the
  request action and then waits, under a fresh identity, for the first action dispatched
  afterwards that satisfies the predicate. \<open>resolved\<close> lists every resolution of a
  request, oldest first.
\<close>

record 'a ActionDispatcher =
  delivered :: "'a list"
  pending :: "(nat \<times> ('a \<Rightarrow> bool)) list"
  resolved :: "(nat \<times> 'a) list"
  nextId :: nat

definition dispatch :: "'a \<Rightarrow> 'a ActionDispatcher \<Rightarrow> 'a ActionDispatcher" where
  "dispatch action d =
     d\<lparr> delivered := delivered d @ [action],
        pending := filter (\<lambda>w. \<not> snd w action) (pending d),
        resolved := resolved d @ map (\<lambda>w. (fst w, action)) (filter (\<lambda>w. snd w action) (pending d)) \<rparr>"

definition requestUntil ::
  "'a \<Rightarrow> ('a \<Rightarrow> bool) \<Rightarrow> 'a ActionDispatcher \<Rightarrow> 'a ActionDispatcher \<times> nat" where
  "requestUntil requestAction matchPredicate d =
     (let d1 = dispatch requestAction d;
          request = nextId d1
      in (d1\<lparr>pending := pending d1 @ [(request, matchPredicate)], nextId := Suc request\<rparr>,
          request))"

definition dispatch_all :: "'a list \<Rightarrow> 'a ActionDispatcher \<Rightarrow> 'a ActionDispatcher" where
  "dispatch_all actions d = foldl (\<lambda>d action. dispatch action d) d actions"

text \<open>The resolutions of one request, and whether it is still pending.\<close>

definition resolutions :: "nat \<Rightarrow> 'a ActionDispatcher \<Rightarrow> 'a list" where
  "resolutions request d = map snd (filter (\<lambda>r. fst r = request) (resolved d))"

definition is_pending :: "nat \<Rightarrow> 'a ActionDispatcher \<Rightarrow> bool" where
  "is_pending request d = List.member (map fst (pending d)) request"

text \<open>
  Every identity in use lies below the next one to be given out. The dispatcher starts
  empty, and \<open>dispatch\<close> and \<open>requestUntil\<close> keep this.
\<close>

definition ids_below_next :: "'a ActionDispatcher \<Rightarrow> bool" where
  "ids_below_next d =
     (list_all (\<lambda>w. fst w < nextId d) (pending d) \<and> list_all (\<lambda>r. fst r < nextId d) (resolved d))"

definition new_dispatcher :: "'a ActionDispatcher" where
  "new_dispatcher = \<lparr> delivered = [], pending = [], resolved = [], nextId = 0 \<rparr>"

text \<open>
  The two states of a request: waiting, with its predicate, for an action still to come,
  and answered with an action.
\<close>

definition waiting :: "nat \<Rightarrow> ('a \<Rightarrow> bool) \<Rightarrow> 'a ActionDispatcher \<Rightarrow> bool" where
  "waiting i p d \<longleftrightarrow>
     filter (\<lambda>w. fst w = i) (pending d) = [(i, p)] \<and> resolutions i d = []"

definition answered :: "nat \<Rightarrow> 'a \<Rightarrow> 'a ActionDispatcher \<Rightarrow> bool" where
  "answered i a d \<longleftrightarrow>
     filter (\<lambda>w. fst w = i) (pending d) = [] \<and> resolutions i d = [a]"

section \<open>Example data\<close>

definition node_hint :: ShapeTypeHint where
  "node_hint =
     \<lparr> elementTypeId = ''node'', repositionable = True, deletable = True,
       resizable = False, reparentable = False, containableElementTypeIds = None \<rparr>"

definition edge_hint :: EdgeTypeHint where
  "edge_hint =
     \<lparr> elementTypeId = ''edge'', repositionable = True, deletable = True,
       routable = False, sourceElementTypeIds = [''node''],
       targetElementTypeIds = [''node:task:user''] \<rparr>"

definition weighted_edge_hint :: EdgeTypeHint where
  "weighted_edge_hint =
     \<lparr> elementTypeId = ''edge:weighted'', repositionable = False, deletable = True,
       routable = True, sourceElementTypeIds = [''comp''],
       targetElementTypeIds = [''node:task'', ''comp''] \<rparr>"

definition empty_provider :: TypeHintProvider where
  "empty_provider = \<lparr> shapeHints = [], edgeHints = [] \<rparr>"

definition node_provider :: TypeHintProvider where
  "node_provider = handle [node_hint] [] empty_provider"

definition diagram_provider :: TypeHintProvider where
  "diagram_provider = handle [node_hint] [edge_hint, weighted_edge_hint] empty_provider"

definition task_element :: SModelElement where
  "task_element =
     \<lparr> elementId = ''task1'', type = ''node:task'', kind = ShapeElement,
       features = FeaturesSet {resizeFeature, otherFeature ''selectable''},
       isContainableElement = None, canConnect = None \<rparr>"

definition comp_element :: SModelElement where
  "comp_element =
     \<lparr> elementId = ''comp1'', type = ''comp:header'', kind = ShapeElement,
       features = FeaturesSet {resizeFeature, deletableFeature},
       isContainableElement = None, canConnect = None \<rparr>"

definition frozen_element :: SModelElement where
  "frozen_element =
     \<lparr> elementId = ''task2'', type = ''node:task'', kind = ShapeElement,
       features = FeaturesReadonly {resizeFeature},
       isContainableElement = None, canConnect = None \<rparr>"

section \<open>Properties of the hint lookup\<close>

lemma split_colon_not_Nil: "split_colon t \<noteq> []"
  by (induction t) (auto split: list.splits)

lemma join_split_colon: "join_colon (split_colon t) = t"
proof (induction t)
  case Nil
  show ?case by simp
next
  case (Cons c cs)
  show ?case
  proof (cases "c = CHR '':''")
    case True
    obtain s ss where "split_colon cs = s # ss"
      using split_colon_not_Nil [of cs] by (cases "split_colon cs") auto
    with True Cons show ?thesis by simp
  next
    case False
    obtain s ss where eq: "split_colon cs = s # ss"
      using split_colon_not_Nil [of cs] by (cases "split_colon cs") auto
    with Cons have "join_colon (s # ss) = cs" by simp
    then have "join_colon ((c # s) # ss) = c # cs" by (cases ss) auto
    with False eq show ?thesis by simp
  qed
qed

lemma type_prefix_full: "type_prefix t (length (split_colon t)) = t"
  by (simp add: type_prefix_def join_split_colon)

lemma strip_loop_Some: "strip_loop hints (Some h) subtypes = Some h"
  by (simp add: strip_loop.simps)

lemma strip_loop_Nil: "strip_loop hints None [] = None"
  by (simp add: strip_loop.simps)

lemma strip_loop_snoc:
  "strip_loop hints None (xs @ [x]) =
     (case map_get hints (join_colon xs) of
        None \<Rightarrow> strip_loop hints None xs
      | Some h \<Rightarrow> Some h)"
  by (subst strip_loop.simps) (simp add: strip_loop_Some split: option.splits)

lemma strip_loop_None_iff:
  "strip_loop hints None segs = None \<longleftrightarrow>
     (\<forall>k < length segs. map_get hints (join_colon (take k segs)) = None)"
proof (induction segs rule: rev_induct)
  case Nil
  show ?case by (simp add: strip_loop_Nil)
next
  case (snoc x xs)
  show ?case
  proof (cases "map_get hints (join_colon xs)")
    case None
    have "(\<forall>k < Suc (length xs). map_get hints (join_colon (take k (xs @ [x]))) = None)
          \<longleftrightarrow> (\<forall>k < length xs. map_get hints (join_colon (take k xs)) = None)"
      using None by (auto simp: less_Suc_eq)
    with None snoc show ?thesis by (simp add: strip_loop_snoc)
  next
    case (Some h)
    then have "\<not> (\<forall>k < Suc (length xs). map_get hints (join_colon (take k (xs @ [x]))) = None)"
      by (auto intro: exI [of _ "length xs"])
    with Some show ?thesis by (simp add: strip_loop_snoc)
  qed
qed

lemma strip_loop_Some_longest:
  "strip_loop hints None segs = Some h \<Longrightarrow>
     \<exists>k < length segs. map_get hints (join_colon (take k segs)) = Some h \<and>
       (\<forall>j. k < j \<and> j < length segs \<longrightarrow> map_get hints (join_colon (take j segs)) = None)"
proof (induction segs rule: rev_induct)
  case Nil
  then show ?case by (simp add: strip_loop_Nil)
next
  case (snoc x xs)
  show ?case
  proof (cases "map_get hints (join_colon xs)")
    case None
    with snoc.prems have "strip_loop hints None xs = Some h"
      by (simp add: strip_loop_snoc)
    then obtain k where k: "k < length xs"
        "map_get hints (join_colon (take k xs)) = Some h"
        "\<forall>j. k < j \<and> j < length xs \<longrightarrow> map_get hints (join_colon (take j xs)) = None"
      using snoc.IH by blast
    have "\<forall>j. k < j \<and> j < length (xs @ [x]) \<longrightarrow>
            map_get hints (join_colon (take j (xs @ [x]))) = None"
      using k(3) None by (auto simp: less_Suc_eq)
    moreover have "map_get hints (join_colon (take k (xs @ [x]))) = Some h"
      using k(1,2) by simp
    moreover have "k < length (xs @ [x])" using k(1) by simp
    ultimately show ?thesis by blast
  next
    case (Some h')
    with snoc.prems have "h' = h" by (simp add: strip_loop_snoc)
    with Some have "map_get hints (join_colon (take (length xs) (xs @ [x]))) = Some h"
      by simp
    then show ?thesis by (intro exI [of _ "length xs"]) auto
  qed
qed

lemma getTypeHint_None_iff:
  "getTypeHint input R = None \<longleftrightarrow>
     (\<forall>k \<le> length (split_colon (getElementTypeId input)).
        map_get R (type_prefix (getElementTypeId input) k) = None)"
proof -
  let ?t = "getElementTypeId input"
  let ?n = "length (split_colon ?t)"
  show ?thesis
  proof (cases "map_get R ?t")
    case None
    then have "getTypeHint input R = strip_loop R None (split_colon ?t)"
      by (simp add: getTypeHint_def)
    moreover have "(\<forall>k \<le> ?n. map_get R (type_prefix ?t k) = None) \<longleftrightarrow>
        (\<forall>k < ?n. map_get R (type_prefix ?t k) = None)"
      using None type_prefix_full [of ?t] by (auto simp: le_less)
    ultimately show ?thesis
      by (simp add: strip_loop_None_iff type_prefix_def)
  next
    case (Some h)
    then have "getTypeHint input R = Some h" by (simp add: getTypeHint_def)
    moreover have "map_get R (type_prefix ?t ?n) = Some h"
      using Some by (simp add: type_prefix_full)
    ultimately show ?thesis by force
  qed
qed

lemma getTypeHint_Some_longest:
  assumes res: "getTypeHint input R = Some h"
  shows "\<exists>k \<le> length (split_colon (getElementTypeId input)).
           map_get R (type_prefix (getElementTypeId input) k) = Some h \<and>
           (\<forall>j. k < j \<and> j \<le> length (split_colon (getElementTypeId input)) \<longrightarrow>
                map_get R (type_prefix (getElementTypeId input) j) = None)"
proof -
  let ?t = "getElementTypeId input"
  let ?n = "length (split_colon ?t)"
  show ?thesis
  proof (cases "map_get R ?t")
    case None
    with res have "strip_loop R None (split_colon ?t) = Some h"
      by (simp add: getTypeHint_def)
    then obtain k where k: "k < ?n" "map_get R (type_prefix ?t k) = Some h"
        "\<forall>j. k < j \<and> j < ?n \<longrightarrow> map_get R (type_prefix ?t j) = None"
      using strip_loop_Some_longest [of R "split_colon ?t" h]
      by (auto simp: type_prefix_def)
    have "\<forall>j. k < j \<and> j \<le> ?n \<longrightarrow> map_get R (type_prefix ?t j) = None"
      using k(3) None type_prefix_full [of ?t] by (auto simp: le_less)
    with k(1,2) show ?thesis by (intro exI [of _ k]) auto
  next
    case (Some h')
    with res have "h' = h" by (simp add: getTypeHint_def)
    with Some have "map_get R (type_prefix ?t ?n) = Some h"
      by (simp add: type_prefix_full)
    then show ?thesis by (intro exI [of _ ?n]) auto
  qed
qed

text \<open>
  C1. For every type id \<open>t\<close> and every registry \<open>R\<close>, the lookup returns the hint that \<open>R\<close>
  holds under the longest colon-segment prefix of \<open>t\<close> that has an entry: the prefix of
  all segments is \<open>t\<close> itself, so the exact id comes first, then \<open>t\<close> with trailing segments
  stripped one at a time, down to no segment at all, which is the empty string. The
  lookup finds nothing exactly when none of these prefixes, the empty string included,
  has an entry. The same holds of \<open>getShapeTypeHint\<close> and \<open>getEdgeTypeHint\<close>, which are
  this lookup on their registry.
\<close>

theorem getTypeHint_longest_prefix:
  assumes "getElementTypeId input = t"
  shows "type_prefix t (length (split_colon t)) = t \<and>
         type_prefix t 0 = [] \<and>
         (getTypeHint input R = None \<longleftrightarrow>
            (\<forall>k \<le> length (split_colon t). map_get R (type_prefix t k) = None)) \<and>
         (\<forall>h. getTypeHint input R = Some h \<longrightarrow>
            (\<exists>k \<le> length (split_colon t). map_get R (type_prefix t k) = Some h \<and>
               (\<forall>j. k < j \<and> j \<le> length (split_colon t) \<longrightarrow>
                    map_get R (type_prefix t j) = None))) \<and>
         getShapeTypeHint provider input = getTypeHint input (shapeHints provider) \<and>
         getEdgeTypeHint provider input = getTypeHint input (edgeHints provider)"
  using assms getTypeHint_None_iff [of input R] getTypeHint_Some_longest [of input R]
  by (simp add: type_prefix_def join_split_colon getShapeTypeHint_def getEdgeTypeHint_def)

theorem getTypeHint_longest_prefix_witness:
  "getTypeHint (Element task_element) (shapeHints node_provider) = Some node_hint \<and>
   (\<exists>k \<le> length (split_colon ''node:task'').
      map_get (shapeHints node_provider) (type_prefix ''node:task'' k) = Some node_hint \<and>
      (\<forall>j. k < j \<and> j \<le> length (split_colon ''node:task'') \<longrightarrow>
           map_get (shapeHints node_provider) (type_prefix ''node:task'' j) = None))"
proof -
  have t: "getElementTypeId (Element task_element) = ''node:task''"
    by (simp add: task_element_def)
  have r: "getTypeHint (Element task_element) (shapeHints node_provider) = Some node_hint"
    by (simp add: getTypeHint_def task_element_def node_provider_def handle_def
        empty_provider_def node_hint_def map_get_def strip_loop.simps)
  from getTypeHint_longest_prefix [OF t, of "shapeHints node_provider"] r
  show ?thesis by blast
qed

section \<open>Properties of the registry\<close>

lemma map_set_keys: "set (map fst (map_set m k v)) = insert k (set (map fst m))"
  by (induction m) auto

lemma map_set_distinct: "distinct (map fst m) \<Longrightarrow> distinct (map fst (map_set m k v))"
proof (induction m)
  case Nil
  show ?case by simp
next
  case (Cons p ps)
  then show ?case using map_set_keys [of ps k v] by auto
qed

lemma foldl_map_set_distinct:
  "distinct (map fst m) \<Longrightarrow> distinct (map fst (foldl (\<lambda>m h. map_set m (key h) h) m hs))"
  by (induction hs arbitrary: m) (simp_all add: map_set_distinct)

lemma handle_distinct:
  "distinct (map fst (shapeHints p)) \<Longrightarrow> distinct (map fst (edgeHints p)) \<Longrightarrow>
   distinct (map fst (shapeHints (handle ss es p))) \<and>
   distinct (map fst (edgeHints (handle ss es p)))"
  by (simp add: handle_def foldl_map_set_distinct)

lemma map_values_entries:
  "distinct (map fst m) \<Longrightarrow> set (map_values m) = {v. \<exists>k. map_get m k = Some v}"
  by (auto simp: map_values_def map_get_def rev_image_eqI dest: map_of_SomeD)

lemma hasCompatibleType_iff:
  "hasCompatibleType (TypeId t) s \<longleftrightarrow>
     (s = t \<or> (\<exists>k < length (split_colon t). s = type_prefix t k))"
  by (auto simp: hasCompatibleType_def ancestors_def)

text \<open>
  C5. For every type id \<open>t\<close>, \<open>getValidEdgeElementTypes\<close> with role \<open>source\<close> returns the
  \<open>elementTypeId\<close> of exactly those registered edge hints whose \<open>sourceElementTypeIds\<close>
  hold \<open>t\<close> or an ancestor of \<open>t\<close>, that is \<open>t\<close> cut down to fewer of its colon segments
  (down to none, the empty string); with role \<open>target\<close> the same of
  \<open>targetElementTypeIds\<close>. The registry is a map: it has one entry per key, which
  \<open>handle\<close> keeps.
\<close>

theorem getValidEdgeElementTypes_exact:
  assumes "distinct (map fst (edgeHints p))" and "getElementTypeId input = t"
  shows "(x \<in> set (getValidEdgeElementTypes p input source) \<longleftrightarrow>
            (\<exists>key h. map_get (edgeHints p) key = Some h \<and> elementTypeId h = x \<and>
               (\<exists>s \<in> set (sourceElementTypeIds h).
                  s = t \<or> (\<exists>k < length (split_colon t). s = type_prefix t k)))) \<and>
         (x \<in> set (getValidEdgeElementTypes p input target) \<longleftrightarrow>
            (\<exists>key h. map_get (edgeHints p) key = Some h \<and> elementTypeId h = x \<and>
               (\<exists>s \<in> set (targetElementTypeIds h).
                  s = t \<or> (\<exists>k < length (split_colon t). s = type_prefix t k))))"
proof -
  have vals: "\<And>h. h \<in> set (map_values (edgeHints p)) \<longleftrightarrow>
      (\<exists>key. map_get (edgeHints p) key = Some h)"
    using map_values_entries [OF assms(1)] by auto
  show ?thesis
    using assms(2)
    by (auto simp: getValidEdgeElementTypes_def list_ex_iff vals hasCompatibleType_iff)
qed

theorem getValidEdgeElementTypes_exact_witness:
  "getValidEdgeElementTypes diagram_provider (TypeId ''node:task'') source = [''edge''] \<and>
   getValidEdgeElementTypes diagram_provider (TypeId ''node:task'') target = [''edge:weighted''] \<and>
   (\<exists>key h. map_get (edgeHints diagram_provider) key = Some h \<and> elementTypeId h = ''edge'' \<and>
      (\<exists>s \<in> set (sourceElementTypeIds h).
         s = ''node:task'' \<or>
         (\<exists>k < length (split_colon ''node:task''). s = type_prefix ''node:task'' k))) \<and>
   \<not> (\<exists>key h. map_get (edgeHints diagram_provider) key = Some h \<and> elementTypeId h = ''edge'' \<and>
      (\<exists>s \<in> set (targetElementTypeIds h).
         s = ''node:task'' \<or>
         (\<exists>k < length (split_colon ''node:task''). s = type_prefix ''node:task'' k)))"
proof -
  have d: "distinct (map fst (edgeHints diagram_provider))"
    by (simp add: diagram_provider_def handle_def empty_provider_def edge_hint_def
        weighted_edge_hint_def)
  have t: "getElementTypeId (TypeId ''node:task'') = ''node:task''" by simp
  have s: "getValidEdgeElementTypes diagram_provider (TypeId ''node:task'') source = [''edge'']"
    by code_simp
  have g: "getValidEdgeElementTypes diagram_provider (TypeId ''node:task'') target = [''edge:weighted'']"
    by code_simp
  from getValidEdgeElementTypes_exact [OF d t, of "''edge''"] s g
  show ?thesis by simp
qed

section \<open>Properties of the command\<close>

lemma in_addOrRemove: "x \<in> addOrRemove fs f add \<longleftrightarrow> (if x = f then add else x \<in> fs)"
  by (auto simp: addOrRemove_def)

lemma edge_features_idem:
  "addOrRemove (addOrRemove (addOrRemove
     (addOrRemove (addOrRemove (addOrRemove fs d a) e b) r c) d a) e b) r c
   = addOrRemove (addOrRemove (addOrRemove fs d a) e b) r c"
  by (rule set_eqI) (simp add: in_addOrRemove)

lemma shape_features_idem:
  "addOrRemove (addOrRemove (addOrRemove (addOrRemove (addOrRemove (addOrRemove
     (addOrRemove (addOrRemove (addOrRemove (addOrRemove (addOrRemove (addOrRemove fs
        d a) m b) r c) p e) k g) n h) d a) m b) r c) p e) k g) n h
   = addOrRemove (addOrRemove (addOrRemove (addOrRemove (addOrRemove (addOrRemove fs
        d a) m b) r c) p e) k g) n h"
  by (rule set_eqI) (simp add: in_addOrRemove)

lemma getTypeHint_Element: "getTypeHint (Element e) R = getTypeHint (TypeId (type e)) R"
  by (simp add: getTypeHint_def)

lemma getValidEdgeElementTypes_Element:
  "getValidEdgeElementTypes p (Element e) r = getValidEdgeElementTypes p (TypeId (type e)) r"
  by (simp add: getValidEdgeElementTypes_def)

lemma applyEdgeTypeHint_idem:
  "applyEdgeTypeHint p (applyEdgeTypeHint p e) = applyEdgeTypeHint p e"
proof (cases "getEdgeTypeHint p (Element e)")
  case None
  then show ?thesis by (simp add: applyEdgeTypeHint_def)
next
  case (Some hint)
  then have h: "getTypeHint (TypeId (type e)) (edgeHints p) = Some hint"
    by (simp add: getEdgeTypeHint_def getTypeHint_Element)
  show ?thesis
  proof (cases "features e")
    case (FeaturesSet fs)
    with h show ?thesis
      by (simp add: applyEdgeTypeHint_def getEdgeTypeHint_def getTypeHint_Element Let_def
          edge_features_idem)
  qed (use Some in \<open>simp_all add: applyEdgeTypeHint_def\<close>)
qed

lemma applyShapeTypeHint_idem:
  "applyShapeTypeHint p (applyShapeTypeHint p e) = applyShapeTypeHint p e"
proof (cases "getShapeTypeHint p (Element e)")
  case None
  then show ?thesis by (simp add: applyShapeTypeHint_def)
next
  case (Some hint)
  then have h: "getTypeHint (TypeId (type e)) (shapeHints p) = Some hint"
    by (simp add: getShapeTypeHint_def getTypeHint_Element)
  show ?thesis
  proof (cases "features e")
    case (FeaturesSet fs)
    with h show ?thesis
      by (simp add: applyShapeTypeHint_def getShapeTypeHint_def getTypeHint_Element
          getValidEdgeElementTypes_Element Let_def shape_features_idem)
  qed (use Some in \<open>simp_all add: applyShapeTypeHint_def\<close>)
qed

lemma applyEdgeTypeHint_kind: "kind (applyEdgeTypeHint p e) = kind e"
  by (simp add: applyEdgeTypeHint_def Let_def split: option.splits FeatureSet.splits)

lemma applyShapeTypeHint_kind: "kind (applyShapeTypeHint p e) = kind e"
  by (simp add: applyShapeTypeHint_def Let_def split: option.splits FeatureSet.splits)

lemma applyTypeHints_idem: "applyTypeHints p (applyTypeHints p e) = applyTypeHints p e"
  by (simp add: applyTypeHints_def applyEdgeTypeHint_idem applyShapeTypeHint_idem
      applyEdgeTypeHint_kind applyShapeTypeHint_kind)

lemma task_element_applied:
  "applyTypeHints node_provider task_element =
     task_element
       \<lparr> features := FeaturesSet {deletableFeature, moveFeature, containerFeature,
                       connectableFeature, otherFeature ''selectable''},
         isContainableElement := Some (createContainable node_hint),
         canConnect := Some (createConnectable [] []) \<rparr>"
proof -
  have h: "getShapeTypeHint node_provider (Element task_element) = Some node_hint"
    by (simp add: getShapeTypeHint_def getTypeHint_def task_element_def node_provider_def
        handle_def empty_provider_def node_hint_def map_get_def strip_loop.simps)
  have v: "getValidEdgeElementTypes node_provider i r = []" for i r
    by (simp add: getValidEdgeElementTypes_def node_provider_def handle_def
        empty_provider_def map_values_def Let_def)
  have k: "kind task_element = ShapeElement"
    and f: "features task_element = FeaturesSet {resizeFeature, otherFeature ''selectable''}"
    by (simp_all add: task_element_def)
  have n: "deletable node_hint" "repositionable node_hint" "\<not> resizable node_hint"
    "\<not> reparentable node_hint"
    by (simp_all add: node_hint_def)
  have fs: "addOrRemove (addOrRemove (addOrRemove (addOrRemove (addOrRemove (addOrRemove
      {resizeFeature, otherFeature ''selectable''} deletableFeature True) moveFeature True)
      resizeFeature False) reparentFeature False) containerFeature True)
      connectableFeature True
    = {deletableFeature, moveFeature, containerFeature, connectableFeature,
       otherFeature ''selectable''}"
    by (rule set_eqI) (auto simp: in_addOrRemove)
  show ?thesis
    by (simp add: applyTypeHints_def applyShapeTypeHint_def h v k f n fs Let_def)
qed

text \<open>
  C2. Running the command twice in succession on the same model with the same registry
  leaves, after the second run, every element as the first run left it: the same feature
  sets and the same two predicates, which therefore answer alike on every candidate.
\<close>

theorem execute_idempotent:
  "ApplyTypeHintsCommand_execute p (ApplyTypeHintsCommand_execute p root) =
     ApplyTypeHintsCommand_execute p root"
  by (simp add: ApplyTypeHintsCommand_execute_def applyTypeHints_idem)

theorem execute_idempotent_witness:
  "features (ApplyTypeHintsCommand_execute node_provider
      (ApplyTypeHintsCommand_execute node_provider [task_element, comp_element]) ! 0) =
     FeaturesSet {deletableFeature, moveFeature, containerFeature, connectableFeature,
       otherFeature ''selectable''}"
proof -
  have "features (ApplyTypeHintsCommand_execute node_provider [task_element, comp_element] ! 0) =
     FeaturesSet {deletableFeature, moveFeature, containerFeature, connectableFeature,
       otherFeature ''selectable''}"
    by (simp add: ApplyTypeHintsCommand_execute_def task_element_applied)
  then show ?thesis
    by (subst execute_idempotent)
qed

text \<open>
  C3. An element for which no prefix of its type id, from the full id down to the empty
  string, has an entry in the registry consulted for its kind (the shape hints for a
  shape or the root, the edge hints for an edge) comes out of a run of the command as it
  went in: its feature set and its predicates are untouched.
\<close>

theorem no_hint_no_mutation:
  assumes "i < length root"
    and "kind (root ! i) = ShapeElement \<or> kind (root ! i) = RootElement \<longrightarrow>
           (\<forall>k \<le> length (split_colon (type (root ! i))).
              map_get (shapeHints p) (type_prefix (type (root ! i)) k) = None)"
    and "kind (root ! i) = EdgeElement \<longrightarrow>
           (\<forall>k \<le> length (split_colon (type (root ! i))).
              map_get (edgeHints p) (type_prefix (type (root ! i)) k) = None)"
  shows "ApplyTypeHintsCommand_execute p root ! i = root ! i"
proof -
  let ?e = "root ! i"
  have "applyTypeHints p ?e = ?e"
  proof (cases "kind ?e")
    case ShapeElement
    with assms(2) have "getShapeTypeHint p (Element ?e) = None"
      by (simp add: getShapeTypeHint_def getTypeHint_None_iff)
    with ShapeElement show ?thesis by (simp add: applyTypeHints_def applyShapeTypeHint_def)
  next
    case RootElement
    with assms(2) have "getShapeTypeHint p (Element ?e) = None"
      by (simp add: getShapeTypeHint_def getTypeHint_None_iff)
    with RootElement show ?thesis by (simp add: applyTypeHints_def applyShapeTypeHint_def)
  next
    case EdgeElement
    with assms(3) have "getEdgeTypeHint p (Element ?e) = None"
      by (simp add: getEdgeTypeHint_def getTypeHint_None_iff)
    with EdgeElement show ?thesis by (simp add: applyTypeHints_def applyEdgeTypeHint_def)
  next
    case OtherElement
    then show ?thesis by (simp add: applyTypeHints_def)
  qed
  with assms(1) show ?thesis by (simp add: ApplyTypeHintsCommand_execute_def)
qed

theorem no_hint_no_mutation_witness:
  "ApplyTypeHintsCommand_execute node_provider [task_element, comp_element] ! 1 = comp_element \<and>
   features (ApplyTypeHintsCommand_execute node_provider [task_element, comp_element] ! 1) =
     FeaturesSet {resizeFeature, deletableFeature}"
proof -
  let ?root = "[task_element, comp_element]"
  have i: "1 < length ?root" by simp
  have "getTypeHint (Element comp_element) (shapeHints node_provider) = None"
    by (simp add: getTypeHint_def comp_element_def node_provider_def handle_def
        empty_provider_def node_hint_def map_get_def strip_loop.simps)
  then have s: "kind (?root ! 1) = ShapeElement \<or> kind (?root ! 1) = RootElement \<longrightarrow>
      (\<forall>k \<le> length (split_colon (type (?root ! 1))).
         map_get (shapeHints node_provider) (type_prefix (type (?root ! 1)) k) = None)"
    by (simp add: getTypeHint_None_iff)
  have e: "kind (?root ! 1) = EdgeElement \<longrightarrow>
      (\<forall>k \<le> length (split_colon (type (?root ! 1))).
         map_get (edgeHints node_provider) (type_prefix (type (?root ! 1)) k) = None)"
    by (simp add: comp_element_def)
  from no_hint_no_mutation [OF i s e]
  show ?thesis by (simp add: comp_element_def)
qed

text \<open>
  C10. The command changes an element only when its \<open>features\<close> field is defined and is
  a \<open>Set\<close>. An element whose feature set is absent or is not a \<open>Set\<close> comes out of a run
  as it went in, whatever hint its type resolves to: no token is added or removed and no
  predicate is installed. The run visits every element and returns; it has no failing
  branch.
\<close>

theorem unmodifiable_features_untouched:
  assumes "i < length root" and "\<not> isModifiableFeatureSet (features (root ! i))"
  shows "length (ApplyTypeHintsCommand_execute p root) = length root \<and>
         ApplyTypeHintsCommand_execute p root ! i = root ! i"
proof -
  let ?e = "root ! i"
  have "applyShapeTypeHint p ?e = ?e"
    using assms(2)
    by (cases "features ?e") (simp_all add: applyShapeTypeHint_def split: option.splits)
  moreover have "applyEdgeTypeHint p ?e = ?e"
    using assms(2)
    by (cases "features ?e") (simp_all add: applyEdgeTypeHint_def split: option.splits)
  ultimately have "applyTypeHints p ?e = ?e" by (simp add: applyTypeHints_def)
  with assms(1) show ?thesis by (simp add: ApplyTypeHintsCommand_execute_def)
qed

theorem unmodifiable_features_untouched_witness:
  "getShapeTypeHint node_provider (Element frozen_element) = Some node_hint \<and>
   ApplyTypeHintsCommand_execute node_provider [frozen_element] ! 0 = frozen_element \<and>
   features (ApplyTypeHintsCommand_execute node_provider [frozen_element] ! 0) =
     FeaturesReadonly {resizeFeature} \<and>
   canConnect (ApplyTypeHintsCommand_execute node_provider [frozen_element] ! 0) = None"
proof -
  have h: "getShapeTypeHint node_provider (Element frozen_element) = Some node_hint"
    by (simp add: getShapeTypeHint_def getTypeHint_def frozen_element_def node_provider_def
        handle_def empty_provider_def node_hint_def map_get_def strip_loop.simps)
  have i: "0 < length [frozen_element]" by simp
  have f: "\<not> isModifiableFeatureSet (features ([frozen_element] ! 0))"
    by (simp add: frozen_element_def)
  from unmodifiable_features_untouched [OF i f, of node_provider] h
  show ?thesis by (simp add: frozen_element_def)
qed

text \<open>
  C6. The registry holds the one shape hint for \<open>node\<close> (deletable and repositionable,
  neither resizable nor reparentable, no containable ids) and no edge hint. A shape
  element of type \<open>node:task\<close> with a modifiable feature set has, after one run, the
  deletable and the movable token, neither the resizable nor the reparentable one, and
  both the connectable and the container token. Its two predicates are installed and, as
  no container or endpoint id is declared, answer false on every candidate.
\<close>

theorem node_task_scenario:
  assumes "i < length root"
    and "type (root ! i) = ''node:task''"
    and "kind (root ! i) = ShapeElement"
    and "features (root ! i) = FeaturesSet fs"
  shows "\<exists>fs' contains connects.
           features (ApplyTypeHintsCommand_execute node_provider root ! i) = FeaturesSet fs' \<and>
           deletableFeature \<in> fs' \<and> moveFeature \<in> fs' \<and>
           resizeFeature \<notin> fs' \<and> reparentFeature \<notin> fs' \<and>
           connectableFeature \<in> fs' \<and> containerFeature \<in> fs' \<and>
           isContainableElement (ApplyTypeHintsCommand_execute node_provider root ! i) = Some contains \<and>
           canConnect (ApplyTypeHintsCommand_execute node_provider root ! i) = Some connects \<and>
           (\<forall>candidate. \<not> contains candidate) \<and>
           (\<forall>candidate r. \<not> connects candidate r)"
proof -
  let ?e = "root ! i"
  have h: "getShapeTypeHint node_provider (Element ?e) = Some node_hint"
    using assms(2)
    by (simp add: getShapeTypeHint_def getTypeHint_def node_provider_def
        handle_def empty_provider_def node_hint_def map_get_def strip_loop.simps)
  have v: "getValidEdgeElementTypes node_provider x r = []" for x r
    by (simp add: getValidEdgeElementTypes_def node_provider_def handle_def
        empty_provider_def map_values_def Let_def)
  have n: "deletable node_hint" "repositionable node_hint" "\<not> resizable node_hint"
    "\<not> reparentable node_hint" "containableElementTypeIds node_hint = None"
    by (simp_all add: node_hint_def)
  have "ApplyTypeHintsCommand_execute node_provider root ! i = applyShapeTypeHint node_provider ?e"
    using assms(1,3) by (simp add: ApplyTypeHintsCommand_execute_def applyTypeHints_def)
  then show ?thesis
    using assms(4)
    by (simp add: applyShapeTypeHint_def h v n Let_def in_addOrRemove createContainable_def
        createConnectable_def)
qed

theorem node_task_scenario_witness:
  "\<exists>fs'. features (ApplyTypeHintsCommand_execute node_provider [comp_element, task_element] ! 1) =
            FeaturesSet fs' \<and>
          deletableFeature \<in> fs' \<and> moveFeature \<in> fs' \<and>
          resizeFeature \<notin> fs' \<and> reparentFeature \<notin> fs' \<and>
          connectableFeature \<in> fs' \<and> containerFeature \<in> fs'"
proof -
  let ?root = "[comp_element, task_element]"
  have i: "1 < length ?root" by simp
  have t: "type (?root ! 1) = ''node:task''" by (simp add: task_element_def)
  have k: "kind (?root ! 1) = ShapeElement" by (simp add: task_element_def)
  have f: "features (?root ! 1) = FeaturesSet {resizeFeature, otherFeature ''selectable''}"
    by (simp add: task_element_def)
  from node_task_scenario [OF i t k f]
  show ?thesis by blast
qed

section \<open>Properties of the command stack\<close>

text \<open>
  C8. Every call of \<open>undo\<close> and of \<open>redo\<close> logs one warning and returns the current model
  as it was when the call was made. The current model and the emitter are as before, and
  the call has no failing branch.
\<close>

theorem undo_redo_return_current_model:
  "snd (GLSPCommandStack_undo this) = currentModel (super this) \<and>
   currentModel (super (fst (GLSPCommandStack_undo this))) = currentModel (super this) \<and>
   onModelRootChangedEmitter (fst (GLSPCommandStack_undo this)) = onModelRootChangedEmitter this \<and>
   (\<exists>text. logger (super (fst (GLSPCommandStack_undo this))) = logger (super this) @ [(warn, text)]) \<and>
   snd (GLSPCommandStack_redo this) = currentModel (super this) \<and>
   currentModel (super (fst (GLSPCommandStack_redo this))) = currentModel (super this) \<and>
   onModelRootChangedEmitter (fst (GLSPCommandStack_redo this)) = onModelRootChangedEmitter this \<and>
   (\<exists>text. logger (super (fst (GLSPCommandStack_redo this))) = logger (super this) @ [(warn, text)])"
  by (simp add: GLSPCommandStack_undo_def GLSPCommandStack_redo_def)

text \<open>
  C9. When the execution of the base class completes with a new root, \<open>execute\<close> fires the
  model root changed event, carrying that root, if the command is a \<open>SetModelCommand\<close> or
  an \<open>UpdateModelCommand\<close>, and fires nothing otherwise. For any other command nothing is
  fired, however the execution ends.
\<close>

theorem execute_fires_for_set_and_update_only:
  "(\<forall>root. snd (super_execute command (super this)) = Fulfilled root \<longrightarrow>
      onModelRootChangedEmitter (fst (GLSPCommandStack_execute super_execute command this)) =
        (if command = SetModelCommand \<or> command = UpdateModelCommand
         then onModelRootChangedEmitter this @ [root]
         else onModelRootChangedEmitter this)) \<and>
   (command \<noteq> SetModelCommand \<and> command \<noteq> UpdateModelCommand \<longrightarrow>
      onModelRootChangedEmitter (fst (GLSPCommandStack_execute super_execute command this)) =
        onModelRootChangedEmitter this) \<and>
   snd (GLSPCommandStack_execute super_execute command this) =
     snd (super_execute command (super this))"
  by (cases "super_execute command (super this)")
    (auto simp: GLSPCommandStack_execute_def notifyListeners_def Let_def split: settled.splits)

theorem execute_fires_for_set_and_update_only_witness:
  "onModelRootChangedEmitter (fst (GLSPCommandStack_execute
      (\<lambda>command base. (base\<lparr>currentModel := ''root2''\<rparr>, Fulfilled ''root2'')) UpdateModelCommand
      \<lparr> super = \<lparr> currentModel = ''root1'', logger = [] \<rparr>, onModelRootChangedEmitter = [] \<rparr>))
     = [''root2''] \<and>
   onModelRootChangedEmitter (fst (GLSPCommandStack_execute
      (\<lambda>command base. (base\<lparr>currentModel := ''root2''\<rparr>, Fulfilled ''root2'')) (OtherCommand ''move'')
      \<lparr> super = \<lparr> currentModel = ''root1'', logger = [] \<rparr>, onModelRootChangedEmitter = [] \<rparr>))
     = []"
  using execute_fires_for_set_and_update_only
      [of "\<lambda>command base. (base\<lparr>currentModel := ''root2''\<rparr>, Fulfilled ''root2'')" UpdateModelCommand
          "\<lparr> super = \<lparr> currentModel = ''root1'', logger = [] \<rparr>, onModelRootChangedEmitter = [] \<rparr>"]
    execute_fires_for_set_and_update_only
      [of "\<lambda>command base. (base\<lparr>currentModel := ''root2''\<rparr>, Fulfilled ''root2'')" "OtherCommand ''move''"
          "\<lparr> super = \<lparr> currentModel = ''root1'', logger = [] \<rparr>, onModelRootChangedEmitter = [] \<rparr>"]
  by simp

section \<open>Properties of the translations\<close>

text \<open>
  C7. For every response: when it is not a \<open>SetEditValidationResultAction\<close> by the guard,
  \<open>getValidationResultFromResponse\<close> returns the neutral result, severity \<open>ok\<close> and no
  message; when it is not a \<open>SetContextActions\<close> by the guard,
  \<open>getContextActionsFromResponse\<close> returns the empty list. Both are returned values: on
  such a response, a missing one included, neither translation throws.
\<close>

theorem malformed_response_neutral:
  "(\<not> SetEditValidationResultAction_is g action \<longrightarrow>
      getValidationResultFromResponse g action = Inr \<lparr> message = None, severity = ok \<rparr>) \<and>
   (\<not> SetContextActions_is g action \<longrightarrow>
      getContextActionsFromResponse g action = Inr (JArray []))"
  by (simp add: getValidationResultFromResponse_def getContextActionsFromResponse_def)

theorem malformed_response_neutral_witness:
  "getValidationResultFromResponse protocol_guards JUndefined =
     Inr \<lparr> message = None, severity = ok \<rparr> \<and>
   getContextActionsFromResponse protocol_guards JUndefined = Inr (JArray []) \<and>
   getValidationResultFromResponse protocol_guards
       (JObject [(''kind'', JString ''setEditValidationResult'')]) =
     Inr \<lparr> message = None, severity = ok \<rparr> \<and>
   getContextActionsFromResponse protocol_guards
       (JObject [(''kind'', JString ''setContextActions''), (''actions'', JNull)]) =
     Inr (JArray [])"
proof -
  have a: "\<not> SetEditValidationResultAction_is protocol_guards JUndefined"
    and b: "\<not> SetContextActions_is protocol_guards JUndefined"
    and c: "\<not> SetEditValidationResultAction_is protocol_guards
              (JObject [(''kind'', JString ''setEditValidationResult'')])"
    and d: "\<not> SetContextActions_is protocol_guards
              (JObject [(''kind'', JString ''setContextActions''), (''actions'', JNull)])"
    by (simp_all add: protocol_guards_def)
  from malformed_response_neutral [of protocol_guards JUndefined] a b
    malformed_response_neutral [of protocol_guards
      "JObject [(''kind'', JString ''setEditValidationResult'')]"] c
    malformed_response_neutral [of protocol_guards
      "JObject [(''kind'', JString ''setContextActions''), (''actions'', JNull)]"] d
  show ?thesis by blast
qed

section \<open>Properties of correlated requests\<close>

lemma resolutions_dispatch:
  "resolutions i (dispatch a d) =
     resolutions i d @ map (\<lambda>w. a) (filter (\<lambda>w. snd w a) (filter (\<lambda>w. fst w = i) (pending d)))"
  by (simp add: resolutions_def dispatch_def filter_map o_def conj_commute)

lemma pending_dispatch:
  "filter (\<lambda>w. fst w = i) (pending (dispatch a d)) =
     filter (\<lambda>w. \<not> snd w a) (filter (\<lambda>w. fst w = i) (pending d))"
  by (simp add: dispatch_def conj_commute)

lemma waiting_dispatch:
  "waiting i p d \<Longrightarrow> (if p a then answered i a (dispatch a d) else waiting i p (dispatch a d))"
  by (simp add: waiting_def answered_def resolutions_dispatch pending_dispatch)

lemma answered_dispatch: "answered i a d \<Longrightarrow> answered i a (dispatch b d)"
  by (simp add: answered_def resolutions_dispatch pending_dispatch)

lemma dispatch_all_Nil: "dispatch_all [] d = d"
  by (simp add: dispatch_all_def)

lemma dispatch_all_Cons: "dispatch_all (b # as) d = dispatch_all as (dispatch b d)"
  by (simp add: dispatch_all_def)

lemma answered_dispatch_all: "answered i a d \<Longrightarrow> answered i a (dispatch_all as d)"
  unfolding dispatch_all_def
  by (induction as arbitrary: d) (simp_all add: answered_dispatch)

lemma waiting_dispatch_all:
  "waiting i p d \<Longrightarrow>
     (case find p as of
        None \<Rightarrow> waiting i p (dispatch_all as d)
      | Some a \<Rightarrow> answered i a (dispatch_all as d))"
proof (induction as arbitrary: d)
  case Nil
  then show ?case by (simp add: dispatch_all_def)
next
  case (Cons b as)
  show ?case
  proof (cases "p b")
    case True
    with waiting_dispatch [OF Cons.prems, of b] have "answered i b (dispatch b d)" by simp
    then have "answered i b (dispatch_all as (dispatch b d))" by (rule answered_dispatch_all)
    with True show ?thesis by (simp add: dispatch_all_def)
  next
    case False
    with waiting_dispatch [OF Cons.prems, of b] have "waiting i p (dispatch b d)" by simp
    from Cons.IH [OF this] False show ?thesis
      by (simp add: dispatch_all_Cons split: option.splits)
  qed
qed

lemma requestUntil_waiting:
  assumes "ids_below_next d" and "requestUntil req p d = (d1, i)"
  shows "waiting i p d1"
proof -
  have i: "i = nextId d" and d1: "d1 = (dispatch req d)\<lparr>pending := pending (dispatch req d) @ [(i, p)], nextId := Suc i\<rparr>"
    using assms(2) by (auto simp: requestUntil_def Let_def dispatch_def)
  have "\<forall>w \<in> set (pending d). fst w \<noteq> i" "\<forall>r \<in> set (resolved d). fst r \<noteq> i"
    using assms(1) i by (auto simp: ids_below_next_def list_all_iff)
  then have "filter (\<lambda>w. fst w = i) (pending d) = []" "filter (\<lambda>r. fst r = i) (resolved d) = []"
    by (auto simp: filter_empty_conv)
  then show ?thesis
    unfolding d1 waiting_def resolutions_def
    by (simp add: dispatch_def filter_map o_def conj_commute filter_empty_conv)
qed

lemma is_pending_iff: "is_pending i d \<longleftrightarrow> filter (\<lambda>w. fst w = i) (pending d) \<noteq> []"
  by (auto simp: is_pending_def filter_empty_conv)

lemma new_dispatcher_ok: "ids_below_next new_dispatcher"
  by (simp add: ids_below_next_def new_dispatcher_def)

lemma dispatch_ids: "ids_below_next d \<Longrightarrow> ids_below_next (dispatch a d)"
  by (auto simp: ids_below_next_def dispatch_def list_all_iff)

lemma requestUntil_ids: "ids_below_next d \<Longrightarrow> ids_below_next (fst (requestUntil a p d))"
  by (auto simp: ids_below_next_def requestUntil_def dispatch_def list_all_iff Let_def less_Suc_eq)


text \<open>
  C4. After \<open>requestUntil\<close> with a request action and a predicate, and any sequence of
  actions dispatched afterwards: the request is resolved with the first of these actions
  that satisfies the predicate, whatever is dispatched before or after it; it is resolved
  at most once, and never with an action that fails the predicate. As long as no action
  dispatched satisfies the predicate, the request stays pending and unresolved.
\<close>

theorem requestUntil_first_match:
  assumes "ids_below_next d" and "requestUntil requestAction matchPredicate d = (d1, request)"
  shows "(\<forall>k < length actions.
            matchPredicate (actions ! k) \<and> (\<forall>j < k. \<not> matchPredicate (actions ! j)) \<longrightarrow>
              resolutions request (dispatch_all actions d1) = [actions ! k] \<and>
              \<not> is_pending request (dispatch_all actions d1)) \<and>
         ((\<forall>a \<in> set actions. \<not> matchPredicate a) \<longrightarrow>
              resolutions request (dispatch_all actions d1) = [] \<and>
              is_pending request (dispatch_all actions d1)) \<and>
         length (resolutions request (dispatch_all actions d1)) \<le> 1 \<and>
         (\<forall>a \<in> set (resolutions request (dispatch_all actions d1)). matchPredicate a)"
proof -
  let ?d = "dispatch_all actions d1"
  have w: "waiting request matchPredicate d1"
    using assms by (rule requestUntil_waiting)
  note r = waiting_dispatch_all [OF w, of actions]
  show ?thesis
  proof (cases "find matchPredicate actions")
    case None
    with r have "waiting request matchPredicate ?d" by simp
    then have st: "resolutions request ?d = []" "is_pending request ?d"
      by (simp_all add: waiting_def is_pending_iff)
    from None have no: "\<forall>a \<in> set actions. \<not> matchPredicate a"
      by (simp add: find_None_iff)
    then have "\<forall>k < length actions. \<not> matchPredicate (actions ! k)"
      by simp
    with st show ?thesis by simp
  next
    case (Some a)
    with r have a: "answered request a ?d" by simp
    from Some obtain k where k: "k < length actions" "matchPredicate (actions ! k)"
        "a = actions ! k" "\<forall>j < k. \<not> matchPredicate (actions ! j)"
      by (auto simp: find_Some_iff)
    have uniq: "k' = k" if "k' < length actions" "matchPredicate (actions ! k')"
        "\<forall>j < k'. \<not> matchPredicate (actions ! j)" for k'
    proof (rule ccontr)
      assume "k' \<noteq> k"
      then consider "k' < k" | "k < k'" by linarith
      then show False
      proof cases
        case 1
        with k(4) that(2) show False by blast
      next
        case 2
        with that(3) k(2) show False by blast
      qed
    qed
    have st: "resolutions request ?d = [actions ! k]" "\<not> is_pending request ?d"
      using a k(3) by (simp_all add: answered_def is_pending_iff)
    have c1: "\<forall>k' < length actions.
        matchPredicate (actions ! k') \<and> (\<forall>j < k'. \<not> matchPredicate (actions ! j)) \<longrightarrow>
          resolutions request ?d = [actions ! k'] \<and> \<not> is_pending request ?d"
      using uniq st by blast
    have "actions ! k \<in> set actions" using k(1) by simp
    with k(2) have c2: "\<not> (\<forall>a \<in> set actions. \<not> matchPredicate a)" by blast
    have c3: "length (resolutions request ?d) \<le> 1" using st(1) by simp
    have c4: "\<forall>a \<in> set (resolutions request ?d). matchPredicate a"
      using st(1) k(2) by simp
    from c1 c2 c3 c4 show ?thesis by blast
  qed
qed


theorem requestUntil_first_match_witness:
  "resolutions 0 (dispatch_all
      [(''serverStatus'', 1), (''setContextActions'', 2), (''setContextActions'', 3 :: nat)]
      (fst (requestUntil (''requestContextActions'', 0) (\<lambda>a. fst a = ''setContextActions'')
         new_dispatcher))) = [(''setContextActions'', 2)] \<and>
   is_pending 0 (dispatch_all [(''serverStatus'', 1 :: nat)]
      (fst (requestUntil (''requestContextActions'', 0) (\<lambda>a. fst a = ''setContextActions'')
         new_dispatcher)))"
proof -
  let ?p = "\<lambda>a :: string \<times> nat. fst a = ''setContextActions''"
  let ?r = "requestUntil (''requestContextActions'', 0) ?p new_dispatcher"
  let ?as = "[(''serverStatus'', 1), (''setContextActions'', 2), (''setContextActions'', 3 :: nat)]"
  have i: "snd ?r = 0"
    by (simp add: requestUntil_def dispatch_def new_dispatcher_def Let_def)
  then have r: "?r = (fst ?r, 0)" by (metis prod.collapse)
  note t = requestUntil_first_match [OF new_dispatcher_ok r]
  have "1 < length ?as \<and> ?p (?as ! 1) \<and> (\<forall>j < 1. \<not> ?p (?as ! j))" by simp
  with t [of ?as] have a: "resolutions 0 (dispatch_all ?as (fst ?r)) = [?as ! 1]" by blast
  have "\<forall>a \<in> set [(''serverStatus'', 1 :: nat)]. \<not> ?p a" by simp
  with t [of "[(''serverStatus'', 1)]"]
  have b: "is_pending 0 (dispatch_all [(''serverStatus'', 1)] (fst ?r))" by blast
  from a b show ?thesis by simp
qed

end
